theory Spec2Isabelle
  imports Main "HOL-Library.Word"
begin

unbundle bit_operations_syntax

section \<open>Condition variables of the user-space thread library (thr_cond.c)\<close>

subsection \<open>Data model\<close>

text \<open>
  Pointers are options: \<open>None\<close> is the C \<open>NULL\<close>. A \<open>pthread_t\<close> is a pointer to a
  thread structure and is identified by a number; the thread structures live in a store
  \<open>tid \<Rightarrow> pthread\<close>. A \<open>pthread_mutex_t\<close> is a pointer to a mutex structure, identified
  by a number as well. A \<open>pthread_cond_t\<close> is a pointer to a condition variable structure;
  the C functions receive the address of such a handle, so the handles live in a store
  indexed by addresses.
\<close>

type_synonym tid = nat
type_synonym mid = nat
type_synonym addr = nat

text \<open>Modelled from the spec: the scheduling states of pthread_private.h (not part of
  the file); only the two states named in thr_cond.c are told apart.\<close>

datatype pthread_state = PS_RUNNING | PS_COND_WAIT | PS_OTHER

text \<open>Modelled from the spec: enum pthread_cond_type of pthread_private.h; the only
  supported kind is the fast one, any other value is a configuration error.\<close>

datatype pthread_cond_type = COND_TYPE_FAST | COND_TYPE_MAX

record timespec =
  tv_sec :: int
  tv_nsec :: int

text \<open>The fields of struct pthread that thr_cond.c reads or writes. The field
  \<open>continuation\<close> records whether the function pointer is non-null.\<close>

record pthread =
  active_priority :: int
  flags :: "32 word"
  timeout :: int
  interrupted :: int
  wakeup_time :: timespec
  state :: pthread_state
  continuation :: bool

type_synonym tstore = "tid \<Rightarrow> pthread"

record pthread_cond =
  c_queue :: "tid list"
  c_flags :: "32 word"
  c_type :: pthread_cond_type
  c_mutex :: "mid option"
  lock :: bool

text \<open>Modelled from the spec: the flag bits of pthread_private.h and the error numbers of
  errno.h, which are not part of the file. The membership flag of a thread and the
  INITIALIZED flag of a condition variable are single bits.\<close>

definition PTHREAD_FLAGS_IN_CONDQ :: "32 word" where
  "PTHREAD_FLAGS_IN_CONDQ = 0x0080"

definition COND_FLAGS_INITED :: "32 word" where
  "COND_FLAGS_INITED = 0x02"

definition EINVAL :: int where "EINVAL = 22"
definition ENOMEM :: int where "ENOMEM = 12"
definition ETIMEDOUT :: int where "ETIMEDOUT = 60"

subsection \<open>The tail queue macros\<close>

text \<open>Modelled from the spec: the TAILQ macros of sys/queue.h. The queue is the list of
  the linked threads from head to tail; an element is linked at most once.\<close>

definition TAILQ_FIRST :: "tid list \<Rightarrow> tid option" where
  "TAILQ_FIRST q = (case q of [] \<Rightarrow> None | t # _ \<Rightarrow> Some t)"

definition TAILQ_LAST :: "tid list \<Rightarrow> tid option" where
  "TAILQ_LAST q = (if q = [] then None else Some (last q))"

definition TAILQ_REMOVE :: "tid list \<Rightarrow> tid \<Rightarrow> tid list" where
  "TAILQ_REMOVE q p = remove1 p q"

definition TAILQ_INSERT_TAIL :: "tid list \<Rightarrow> tid \<Rightarrow> tid list" where
  "TAILQ_INSERT_TAIL q p = q @ [p]"

subsection \<open>The wait queue\<close>

text \<open>\<open>pthread->flags &= ~PTHREAD_FLAGS_IN_CONDQ\<close> and \<open>pthread->flags |= PTHREAD_FLAGS_IN_CONDQ\<close>.\<close>

definition clear_condq :: "tstore \<Rightarrow> tid \<Rightarrow> tstore" where
  "clear_condq ts p = ts(p := (ts p)\<lparr>flags := flags (ts p) AND NOT PTHREAD_FLAGS_IN_CONDQ\<rparr>)"

definition set_condq :: "tstore \<Rightarrow> tid \<Rightarrow> tstore" where
  "set_condq ts p = ts(p := (ts p)\<lparr>flags := flags (ts p) OR PTHREAD_FLAGS_IN_CONDQ\<rparr>)"

definition in_condq :: "tstore \<Rightarrow> tid \<Rightarrow> bool" where
  "in_condq ts p = (flags (ts p) AND PTHREAD_FLAGS_IN_CONDQ \<noteq> 0)"

text \<open>The loop of \<open>cond_queue_deq\<close>: take the head, unlink it, clear its flag, and stop
  at the first thread that has neither timed out nor been interrupted.\<close>

fun deq_loop :: "tid list \<Rightarrow> tstore \<Rightarrow> tid option \<times> tid list \<times> tstore" where
  "deq_loop [] ts = (None, [], ts)"
| "deq_loop (p # q) ts =
     (let ts' = clear_condq ts p in
      if timeout (ts' p) = 0 \<and> interrupted (ts' p) = 0 then (Some p, q, ts')
      else deq_loop q ts')"

definition cond_queue_deq :: "pthread_cond \<Rightarrow> tstore \<Rightarrow> tid option \<times> pthread_cond \<times> tstore" where
  "cond_queue_deq cond ts =
     (case deq_loop (c_queue cond) ts of (r, q, ts') \<Rightarrow> (r, cond\<lparr>c_queue := q\<rparr>, ts'))"

definition cond_queue_remove :: "pthread_cond \<Rightarrow> tid \<Rightarrow> tstore \<Rightarrow> pthread_cond \<times> tstore" where
  "cond_queue_remove cond p ts =
     (if in_condq ts p
      then (cond\<lparr>c_queue := TAILQ_REMOVE (c_queue cond) p\<rparr>, clear_condq ts p)
      else (cond, ts))"

text \<open>The scan of \<open>cond_queue_enq\<close> from the head: \<open>tid\<close> walks down the queue while the
  new thread's priority is not above the priority of \<open>tid\<close>, and the new thread is linked
  before the thread where the walk stops. Walking off the end would read through a null
  \<open>tid\<close>: that is the result \<open>None\<close>.\<close>

fun enq_scan :: "tstore \<Rightarrow> tid \<Rightarrow> tid list \<Rightarrow> tid list option" where
  "enq_scan ts p [] = None"
| "enq_scan ts p (t # q) =
     (if active_priority (ts p) \<le> active_priority (ts t)
      then map_option (Cons t) (enq_scan ts p q)
      else Some (p # t # q))"

definition cond_queue_enq :: "pthread_cond \<Rightarrow> tid \<Rightarrow> tstore \<Rightarrow> (pthread_cond \<times> tstore) option" where
  "cond_queue_enq cond p ts =
     (case (case TAILQ_LAST (c_queue cond) of
              None \<Rightarrow> Some (TAILQ_INSERT_TAIL (c_queue cond) p)
            | Some tid \<Rightarrow>
                if active_priority (ts p) \<le> active_priority (ts tid)
                then Some (TAILQ_INSERT_TAIL (c_queue cond) p)
                else enq_scan ts p (c_queue cond)) of
        None \<Rightarrow> None
      | Some q \<Rightarrow> Some (cond\<lparr>c_queue := q\<rparr>, set_condq ts p))"

text \<open>The recurring fragment "remove the running thread; check for no more waiters".\<close>

definition remove_and_check :: "pthread_cond \<Rightarrow> tid \<Rightarrow> tstore \<Rightarrow> pthread_cond \<times> tstore" where
  "remove_and_check cond p ts =
     (case cond_queue_remove cond p ts of (cond', ts') \<Rightarrow>
        (if TAILQ_FIRST (c_queue cond') = None then cond'\<lparr>c_mutex := None\<rparr> else cond', ts'))"

subsection \<open>The state of the library and its collaborators\<close>

text \<open>The calls into the scheduler, the mutex layer and the cancellation layer are
  recorded in a trace, in the order in which they happen.\<close>

datatype event =
    EnterCancellationPoint
  | LeaveCancellationPoint
  | SigDefer
  | SigUndefer
  | MutexCvUnlock "mid option option"
  | MutexCvLock "mid option option"
  | SchedStateUnlock tid
  | Continuation tid

record kse =
  handles :: "addr \<Rightarrow> pthread_cond option"
  threads :: tstore
  errno :: int
  trace :: "event list"

text \<open>Modelled from the spec: the collaborators, which are not part of the file. The
  allocator returns a null pointer or fresh memory of unspecified contents; the unlock
  and the lock of the mutex layer for a wait return a status for the mutex they are
  given and may fail; the scheduler bridge deschedules the caller, and \<open>sched\<close> is
  everything the rest of the system does to the state until the caller runs again.\<close>

record env =
  malloc_result :: "pthread_cond option"
  mutex_cv_unlock :: "mid option option \<Rightarrow> int"
  mutex_cv_lock :: "mid option option \<Rightarrow> int"
  sched :: "kse \<Rightarrow> kse"

definition log_event :: "event \<Rightarrow> kse \<Rightarrow> kse" where
  "log_event ev s = s\<lparr>trace := trace s @ [ev]\<rparr>"

definition put_cond :: "addr \<Rightarrow> pthread_cond \<Rightarrow> kse \<Rightarrow> kse" where
  "put_cond a c s = s\<lparr>handles := (handles s)(a := Some c)\<rparr>"

definition thread_enter_cancellation_point :: "kse \<Rightarrow> kse" where
  "thread_enter_cancellation_point = log_event EnterCancellationPoint"

definition thread_leave_cancellation_point :: "kse \<Rightarrow> kse" where
  "thread_leave_cancellation_point = log_event LeaveCancellationPoint"

definition SPINLOCK :: "pthread_cond \<Rightarrow> pthread_cond" where
  "SPINLOCK c = c\<lparr>lock := True\<rparr>"

definition SPINUNLOCK :: "pthread_cond \<Rightarrow> pthread_cond" where
  "SPINUNLOCK c = c\<lparr>lock := False\<rparr>"

text \<open>Modelled from the spec: the macro PTHREAD_NEW_STATE of pthread_private.h, the
  transition of a thread to a scheduling state.\<close>

definition PTHREAD_NEW_STATE :: "tstore \<Rightarrow> tid \<Rightarrow> pthread_state \<Rightarrow> tstore" where
  "PTHREAD_NEW_STATE ts p st = ts(p := (ts p)\<lparr>state := st\<rparr>)"

text \<open>Modelled from the spec: the scheduler bridge, which marks the running thread
  blocked and releases the lock of the condition variable in one step.\<close>

definition thread_kern_sched_state_unlock :: "tid \<Rightarrow> addr \<Rightarrow> pthread_cond \<Rightarrow> kse \<Rightarrow> kse" where
  "thread_kern_sched_state_unlock self a c s =
     log_event (SchedStateUnlock self)
       (put_cond a (SPINUNLOCK c)
          (s\<lparr>threads := PTHREAD_NEW_STATE (threads s) self PS_COND_WAIT\<rparr>))"

subsection \<open>Initialization\<close>

definition pthread_cond_init ::
  "env \<Rightarrow> addr option \<Rightarrow> pthread_cond_type option option \<Rightarrow> kse \<Rightarrow> int \<times> kse" where
  "pthread_cond_init e cond cond_attr s =
     (case cond of
        None \<Rightarrow> (EINVAL, s)
      | Some a \<Rightarrow>
          (let type = (case cond_attr of Some (Some t) \<Rightarrow> t | _ \<Rightarrow> COND_TYPE_FAST);
               rval = (case type of COND_TYPE_FAST \<Rightarrow> 0 | _ \<Rightarrow> EINVAL)
           in if rval = 0
              then (case malloc_result e of
                      None \<Rightarrow> (ENOMEM, s)
                    | Some pcond \<Rightarrow>
                        (rval, put_cond a
                           (pcond\<lparr>c_queue := [],
                                  c_flags := c_flags pcond OR COND_FLAGS_INITED,
                                  c_type := type, c_mutex := None, lock := False\<rparr>) s))
              else (rval, s)))"

text \<open>The test at the head of wait and timed wait: a live handle is taken as it is, a
  zero-valued handle is initialized on the spot.\<close>

definition lazy_init :: "env \<Rightarrow> addr \<Rightarrow> int \<Rightarrow> kse \<Rightarrow> int \<times> kse" where
  "lazy_init e a rval s =
     (case handles s a of
        Some _ \<Rightarrow> (rval, s)
      | None \<Rightarrow> pthread_cond_init e (Some a) None s)"

text \<open>"If the condvar was statically allocated, properly initialize the tail queue."\<close>

definition static_queue_init :: "pthread_cond \<Rightarrow> pthread_cond" where
  "static_queue_init c =
     (if c_flags c AND COND_FLAGS_INITED = 0
      then c\<lparr>c_queue := [], c_flags := c_flags c OR COND_FLAGS_INITED\<rparr>
      else c)"

subsection \<open>The guarded sections of wait and timed wait\<close>

text \<open>The section that both waits run after waking up interrupted (and timed wait
  after a timeout): lock, remove the running thread, check for no more waiters, unlock.
  The handle is read again here; \<open>None\<close> is a read through a null handle.\<close>

definition cond_cleanup_section :: "tid \<Rightarrow> addr \<Rightarrow> kse \<Rightarrow> kse option" where
  "cond_cleanup_section self a s =
     (case handles s a of
        None \<Rightarrow> None
      | Some c \<Rightarrow>
          (case remove_and_check (SPINLOCK c) self (threads s) of (c', ts') \<Rightarrow>
             Some (put_cond a (SPINUNLOCK c') (s\<lparr>threads := ts'\<rparr>))))"

text \<open>The first section of \<open>pthread_cond_wait\<close>, from taking the lock to its release:
  by the invalid-argument exits, by the rollback after a failed unlock of the mutex, or
  by the scheduler bridge. The result is the status, whether the caller is now blocked,
  and the state.\<close>

definition cond_wait_section ::
  "env \<Rightarrow> tid \<Rightarrow> addr \<Rightarrow> mid option option \<Rightarrow> kse \<Rightarrow> (int \<times> bool \<times> kse) option" where
  "cond_wait_section e self a mutex s =
     (case handles s a of
        None \<Rightarrow> None
      | Some c0 \<Rightarrow>
          (let c = static_queue_init (SPINLOCK c0) in
           case c_type c of
             COND_TYPE_FAST \<Rightarrow>
               (case mutex of
                  None \<Rightarrow> Some (EINVAL, False, put_cond a (SPINUNLOCK c) s)
                | Some m \<Rightarrow>
                    if c_mutex c \<noteq> None \<and> c_mutex c \<noteq> m
                    then Some (EINVAL, False, put_cond a (SPINUNLOCK c) s)
                    else
                      (let ts1 = (threads s)(self := (threads s self)\<lparr>timeout := 0, interrupted := 0\<rparr>)
                       in case cond_queue_enq c self ts1 of
                            None \<Rightarrow> None
                          | Some (c3, ts2) \<Rightarrow>
                              (let c4 = c3\<lparr>c_mutex := m\<rparr>;
                                   ts3 = ts2(self := (ts2 self)
                                           \<lparr>wakeup_time := (wakeup_time (ts2 self))\<lparr>tv_sec := - 1\<rparr>\<rparr>);
                                   s1 = log_event (MutexCvUnlock mutex) (s\<lparr>threads := ts3\<rparr>);
                                   rval = mutex_cv_unlock e mutex
                               in if rval \<noteq> 0
                                  then (case remove_and_check c4 self (threads s1) of (c5, ts4) \<Rightarrow>
                                          Some (rval, False,
                                                put_cond a (SPINUNLOCK c5) (s1\<lparr>threads := ts4\<rparr>)))
                                  else Some (rval, True,
                                             thread_kern_sched_state_unlock self a c4 s1))))
           | _ \<Rightarrow> Some (EINVAL, False, put_cond a (SPINUNLOCK c) s)))"

text \<open>The first section of \<open>pthread_cond_timedwait\<close>; it differs in the wakeup time.\<close>

definition cond_timedwait_section ::
  "env \<Rightarrow> tid \<Rightarrow> addr \<Rightarrow> mid option option \<Rightarrow> timespec \<Rightarrow> kse \<Rightarrow> (int \<times> bool \<times> kse) option" where
  "cond_timedwait_section e self a mutex abstime s =
     (case handles s a of
        None \<Rightarrow> None
      | Some c0 \<Rightarrow>
          (let c = static_queue_init (SPINLOCK c0) in
           case c_type c of
             COND_TYPE_FAST \<Rightarrow>
               (case mutex of
                  None \<Rightarrow> Some (EINVAL, False, put_cond a (SPINUNLOCK c) s)
                | Some m \<Rightarrow>
                    if c_mutex c \<noteq> None \<and> c_mutex c \<noteq> m
                    then Some (EINVAL, False, put_cond a (SPINUNLOCK c) s)
                    else
                      (let ts1 = (threads s)(self := (threads s self)
                                   \<lparr>timeout := 0, interrupted := 0,
                                    wakeup_time := \<lparr>tv_sec = tv_sec abstime, tv_nsec = tv_nsec abstime\<rparr>\<rparr>)
                       in case cond_queue_enq c self ts1 of
                            None \<Rightarrow> None
                          | Some (c3, ts2) \<Rightarrow>
                              (let c4 = c3\<lparr>c_mutex := m\<rparr>;
                                   s1 = log_event (MutexCvUnlock mutex) (s\<lparr>threads := ts2\<rparr>);
                                   rval = mutex_cv_unlock e mutex
                               in if rval \<noteq> 0
                                  then (case remove_and_check c4 self (threads s1) of (c5, ts4) \<Rightarrow>
                                          Some (rval, False,
                                                put_cond a (SPINUNLOCK c5) (s1\<lparr>threads := ts4\<rparr>)))
                                  else Some (rval, True,
                                             thread_kern_sched_state_unlock self a c4 s1))))
           | _ \<Rightarrow> Some (EINVAL, False, put_cond a (SPINUNLOCK c) s)))"

subsection \<open>Wait and timed wait\<close>

text \<open>What \<open>pthread_cond_wait\<close> does once it runs again: clean up if interrupted, then
  lock the mutex in any case. The result is the status, the local \<open>interrupted\<close> and the
  state.\<close>

definition cond_wait_wakeup ::
  "env \<Rightarrow> tid \<Rightarrow> addr \<Rightarrow> mid option option \<Rightarrow> kse \<Rightarrow> (int \<times> int \<times> kse) option" where
  "cond_wait_wakeup e self a mutex s =
     (case (if interrupted (threads s self) \<noteq> 0
            then map_option (Pair 1) (cond_cleanup_section self a s)
            else Some (0, s)) of
        None \<Rightarrow> None
      | Some (intr, s') \<Rightarrow> Some (mutex_cv_lock e mutex, intr, log_event (MutexCvLock mutex) s'))"

text \<open>What \<open>pthread_cond_timedwait\<close> does once it runs again.\<close>

definition cond_timedwait_wakeup ::
  "env \<Rightarrow> tid \<Rightarrow> addr \<Rightarrow> mid option option \<Rightarrow> kse \<Rightarrow> (int \<times> int \<times> kse) option" where
  "cond_timedwait_wakeup e self a mutex s =
     (if timeout (threads s self) = 0 \<and> interrupted (threads s self) = 0
      then Some (mutex_cv_lock e mutex, 0, log_event (MutexCvLock mutex) s)
      else
        (let intr = interrupted (threads s self) in
         case cond_cleanup_section self a s of
           None \<Rightarrow> None
         | Some s' \<Rightarrow> Some (ETIMEDOUT, intr, log_event (MutexCvLock mutex) s')))"

text \<open>The common end of both waits: run the continuation of an interrupted thread and
  leave the two cancellation points.\<close>

definition wait_epilogue :: "tid \<Rightarrow> int \<Rightarrow> int \<Rightarrow> kse \<Rightarrow> int \<times> kse" where
  "wait_epilogue self rval intr s =
     (let s1 = (if intr \<noteq> 0 \<and> continuation (threads s self)
                then log_event (Continuation self) s else s)
      in (rval, thread_leave_cancellation_point (thread_leave_cancellation_point s1)))"

text \<open>The functions return \<open>None\<close> where the C code reads through a null pointer.\<close>

definition pthread_cond_wait ::
  "env \<Rightarrow> tid \<Rightarrow> addr option \<Rightarrow> mid option option \<Rightarrow> kse \<Rightarrow> (int \<times> kse) option" where
  "pthread_cond_wait e self cond mutex s0 =
     (let s1 = thread_enter_cancellation_point s0 in
      case cond of
        None \<Rightarrow> Some (EINVAL, thread_leave_cancellation_point s1)
      | Some a \<Rightarrow>
          (case lazy_init e a 0 s1 of (rval, s2) \<Rightarrow>
             if handles s1 a \<noteq> None \<or> rval = 0
             then
               (case cond_wait_section e self a mutex (thread_enter_cancellation_point s2) of
                  None \<Rightarrow> None
                | Some (rv, blocked, s3) \<Rightarrow>
                    if blocked
                    then (case cond_wait_wakeup e self a mutex (sched e s3) of
                            None \<Rightarrow> None
                          | Some (rv', intr, s4) \<Rightarrow> Some (wait_epilogue self rv' intr s4))
                    else Some (wait_epilogue self rv 0 s3))
             else Some (rval, thread_leave_cancellation_point s2)))"

definition pthread_cond_timedwait ::
  "env \<Rightarrow> tid \<Rightarrow> addr option \<Rightarrow> mid option option \<Rightarrow> timespec option \<Rightarrow> kse
     \<Rightarrow> (int \<times> kse) option" where
  "pthread_cond_timedwait e self cond mutex abstime s0 =
     (let s1 = thread_enter_cancellation_point s0;
          rval0 = (if cond = None \<or> abstime = None then EINVAL else 0)
      in case abstime of
           None \<Rightarrow> None
         | Some at \<Rightarrow>
             if tv_sec at < 0 \<or> tv_nsec at < 0 \<or> tv_nsec at \<ge> 1000000000
             then Some (- 1, thread_leave_cancellation_point (s1\<lparr>errno := EINVAL\<rparr>))
             else
               (case cond of
                  None \<Rightarrow> None
                | Some a \<Rightarrow>
                    (case lazy_init e a rval0 s1 of (rval, s2) \<Rightarrow>
                       if handles s1 a \<noteq> None \<or> rval = 0
                       then
                         (case cond_timedwait_section e self a mutex at
                                 (thread_enter_cancellation_point s2) of
                            None \<Rightarrow> None
                          | Some (rv, blocked, s3) \<Rightarrow>
                              if blocked
                              then (case cond_timedwait_wakeup e self a mutex (sched e s3) of
                                      None \<Rightarrow> None
                                    | Some (rv', intr, s4) \<Rightarrow> Some (wait_epilogue self rv' intr s4))
                              else Some (wait_epilogue self rv 0 s3))
                       else Some (rval, thread_leave_cancellation_point s2))))"

subsection \<open>Signal and broadcast\<close>

text \<open>The guarded section of \<open>pthread_cond_signal\<close> on the condition variable structure.\<close>

definition cond_signal_section :: "pthread_cond \<Rightarrow> tstore \<Rightarrow> int \<times> pthread_cond \<times> tstore" where
  "cond_signal_section c0 ts =
     (let c = SPINLOCK c0 in
      case (case c_type c of
              COND_TYPE_FAST \<Rightarrow>
                (case cond_queue_deq c ts of (pthread, c1, ts1) \<Rightarrow>
                   (let ts2 = (case pthread of
                                 Some p \<Rightarrow> PTHREAD_NEW_STATE ts1 p PS_RUNNING
                               | None \<Rightarrow> ts1);
                        c2 = (if TAILQ_FIRST (c_queue c1) = None then c1\<lparr>c_mutex := None\<rparr> else c1)
                    in (0, c2, ts2)))
            | _ \<Rightarrow> (EINVAL, c, ts)) of
        (rval, c3, ts3) \<Rightarrow> (rval, SPINUNLOCK c3, ts3))"

definition pthread_cond_signal :: "addr option \<Rightarrow> kse \<Rightarrow> int \<times> kse" where
  "pthread_cond_signal cond s =
     (case cond of
        None \<Rightarrow> (EINVAL, s)
      | Some a \<Rightarrow>
          (case handles s a of
             None \<Rightarrow> (EINVAL, s)
           | Some c0 \<Rightarrow>
               (let s1 = log_event SigDefer s in
                case cond_signal_section c0 (threads s1) of (rval, c, ts) \<Rightarrow>
                  (rval, log_event SigUndefer (put_cond a c (s1\<lparr>threads := ts\<rparr>))))))"

text \<open>The loop of \<open>pthread_cond_broadcast\<close>: dequeue until the queue gives no thread,
  and let every thread it gives run.\<close>

function broadcast_loop :: "pthread_cond \<Rightarrow> tstore \<Rightarrow> pthread_cond \<times> tstore" where
  "broadcast_loop c ts =
     (case cond_queue_deq c ts of
        (None, c1, ts1) \<Rightarrow> (c1, ts1)
      | (Some p, c1, ts1) \<Rightarrow> broadcast_loop c1 (PTHREAD_NEW_STATE ts1 p PS_RUNNING))"
  by pat_completeness auto
termination
proof -
  have shrink: "length q' < length q" if "deq_loop q t = (Some p, q', t')" for q t p q' t'
    using that by (induction q arbitrary: t) (auto simp: Let_def less_Suc_eq split: if_splits)
  show ?thesis
    apply (relation "measure (\<lambda>(c, ts). length (c_queue c))")
     apply simp
    apply (auto simp: cond_queue_deq_def split: prod.splits dest: shrink)
    done
qed

definition cond_broadcast_section :: "pthread_cond \<Rightarrow> tstore \<Rightarrow> int \<times> pthread_cond \<times> tstore" where
  "cond_broadcast_section c0 ts =
     (let c = SPINLOCK c0 in
      case (case c_type c of
              COND_TYPE_FAST \<Rightarrow>
                (case broadcast_loop c ts of (c1, ts1) \<Rightarrow> (0, c1\<lparr>c_mutex := None\<rparr>, ts1))
            | _ \<Rightarrow> (EINVAL, c, ts)) of
        (rval, c3, ts3) \<Rightarrow> (rval, SPINUNLOCK c3, ts3))"

definition pthread_cond_broadcast :: "addr option \<Rightarrow> kse \<Rightarrow> int \<times> kse" where
  "pthread_cond_broadcast cond s =
     (case cond of
        None \<Rightarrow> (EINVAL, s)
      | Some a \<Rightarrow>
          (case handles s a of
             None \<Rightarrow> (EINVAL, s)
           | Some c0 \<Rightarrow>
               (let s1 = log_event SigDefer s in
                case cond_broadcast_section c0 (threads s1) of (rval, c, ts) \<Rightarrow>
                  (rval, log_event SigUndefer (put_cond a c (s1\<lparr>threads := ts\<rparr>))))))"

subsection \<open>Destruction\<close>


subsection \<open>Notions used to state the properties\<close>

text \<open>A queued thread is eligible for a wakeup when it has neither timed out nor been
  interrupted.\<close>

definition eligible :: "tstore \<Rightarrow> tid \<Rightarrow> bool" where
  "eligible ts t = (timeout (ts t) = 0 \<and> interrupted (ts t) = 0)"

text \<open>The thread store in which the membership flag of every thread of a list has been
  cleared and nothing else has changed.\<close>

definition flag_cleared :: "tstore \<Rightarrow> tid list \<Rightarrow> tstore" where
  "flag_cleared ts ps t =
     (if t \<in> set ps then (ts t)\<lparr>flags := flags (ts t) AND NOT PTHREAD_FLAGS_IN_CONDQ\<rparr> else ts t)"





text \<open>The states of the condition variable at address \<open>a\<close> between guarded sections,
  starting from an initialized condition variable with an empty queue and no mutex. Each
  rule is one complete guarded section: the first section of a wait or of a timed wait
  (ending by an invalid-argument exit, by the rollback, or by blocking), the cleanup
  section of a thread that woke up by timeout or interruption, a signal, a broadcast.
  The last rule is whatever else happens in the system and leaves the structure alone
  (the scheduler flagging a timeout or an interruption, writes to other handles).
  The collaborators are unconstrained. The boolean records whether some wait or timed
  wait so far has blocked on a mutex pointer whose mutex is null, which happens when the
  mutex layer unlocks such a mutex with success.
  The rules do not ask that the membership flags agree with the queue; the states they
  reach include all states that runs of the library reach.\<close>

inductive cv_reach :: "addr \<Rightarrow> bool \<Rightarrow> kse \<Rightarrow> bool" for a :: addr where
  initialized:
    "handles s a = Some c \<Longrightarrow> c_queue c = [] \<Longrightarrow> c_mutex c = None
       \<Longrightarrow> c_flags c AND COND_FLAGS_INITED \<noteq> 0 \<Longrightarrow> cv_reach a False s"
| wait:
    "cv_reach a b s \<Longrightarrow> cond_wait_section e self a mutex s = Some (rv, blocked, s')
       \<Longrightarrow> cv_reach a (b \<or> (blocked \<and> mutex = Some None)) s'"
| timedwait:
    "cv_reach a b s \<Longrightarrow> cond_timedwait_section e self a mutex abstime s = Some (rv, blocked, s')
       \<Longrightarrow> cv_reach a (b \<or> (blocked \<and> mutex = Some None)) s'"
| cleanup:
    "cv_reach a b s \<Longrightarrow> cond_cleanup_section self a s = Some s' \<Longrightarrow> cv_reach a b s'"
| signal:
    "cv_reach a b s \<Longrightarrow> pthread_cond_signal (Some a) s = (rv, s') \<Longrightarrow> cv_reach a b s'"
| broadcast:
    "cv_reach a b s \<Longrightarrow> pthread_cond_broadcast (Some a) s = (rv, s') \<Longrightarrow> cv_reach a b s'"
| other:
    "cv_reach a b s \<Longrightarrow> handles s' a = handles s a \<Longrightarrow> cv_reach a b s'"

text \<open>What \<open>pthread_cond_init\<close> makes of the memory it got from the allocator, and the
  deadlines that pass the validation of \<open>pthread_cond_timedwait\<close>.\<close>

definition initialized_cond :: "pthread_cond \<Rightarrow> pthread_cond" where
  "initialized_cond m =
     m\<lparr>c_queue := [], c_flags := c_flags m OR COND_FLAGS_INITED, c_type := COND_TYPE_FAST,
       c_mutex := None, lock := False\<rparr>"

definition well_formed :: "timespec \<Rightarrow> bool" where
  "well_formed at = (\<not> (tv_sec at < 0 \<or> tv_nsec at < 0 \<or> tv_nsec at \<ge> 1000000000))"

text \<open>The invariants carried through the guarded sections. In both the structure stays
  marked as initialized (so that no section resets the queue). The first holds in every
  state: an empty queue has a null mutex. The second is the equivalence.\<close>

definition cond_half :: "pthread_cond \<Rightarrow> bool" where
  "cond_half c = ((c_queue c = [] \<longrightarrow> c_mutex c = None) \<and> c_flags c AND COND_FLAGS_INITED \<noteq> 0)"

definition cv_half :: "addr \<Rightarrow> kse \<Rightarrow> bool" where
  "cv_half a s = (case handles s a of None \<Rightarrow> False | Some c \<Rightarrow> cond_half c)"

definition cond_ok :: "pthread_cond \<Rightarrow> bool" where
  "cond_ok c = (((c_mutex c = None) = (c_queue c = [])) \<and> c_flags c AND COND_FLAGS_INITED \<noteq> 0)"

definition cv_ok :: "addr \<Rightarrow> kse \<Rightarrow> bool" where
  "cv_ok a s = (case handles s a of None \<Rightarrow> False | Some c \<Rightarrow> cond_ok c)"

subsection \<open>Concrete states for examples\<close>

definition idle_thread :: pthread where
  "idle_thread =
     \<lparr>active_priority = 0, flags = 0, timeout = 0, interrupted = 0,
      wakeup_time = \<lparr>tv_sec = 0, tv_nsec = 0\<rparr>, state = PS_RUNNING, continuation = False\<rparr>"

text \<open>Threads 1, 2, 3, 4 with the priorities 5, 1, 5, 3.\<close>

definition demo_threads :: tstore where
  "demo_threads t =
     idle_thread\<lparr>active_priority :=
       (if t = 1 then 5 else if t = 2 then 1 else if t = 3 then 5 else 3)\<rparr>"

definition empty_cond :: pthread_cond where
  "empty_cond =
     \<lparr>c_queue = [], c_flags = COND_FLAGS_INITED, c_type = COND_TYPE_FAST,
      c_mutex = None, lock = False\<rparr>"

text \<open>A state with a live condition variable at address 0 and zero-valued handles
  everywhere else.\<close>

definition demo_handles :: "addr \<Rightarrow> pthread_cond option" where
  "demo_handles a = (if a = 0 then Some empty_cond else None)"

definition demo_kse :: kse where
  "demo_kse = \<lparr>handles = demo_handles, threads = demo_threads, errno = 0, trace = []\<rparr>"

text \<open>A state in which threads 1 and 3 wait with mutex 7 on the condition variable at
  address 0.\<close>

definition waiting_threads :: tstore where
  "waiting_threads t = (demo_threads t)\<lparr>flags := PTHREAD_FLAGS_IN_CONDQ, state := PS_COND_WAIT\<rparr>"

definition waiting_kse :: kse where
  "waiting_kse =
     \<lparr>handles = demo_handles(0 := Some (empty_cond\<lparr>c_queue := [1, 3], c_mutex := Some 7\<rparr>)),
      threads = waiting_threads, errno = 0, trace = []\<rparr>"

text \<open>A scheduler under which the wait of thread 1 ends by timeout, and collaborators
  that succeed, except that the mutex layer refuses a null mutex.\<close>

definition timeout_sched :: "kse \<Rightarrow> kse" where
  "timeout_sched s = s\<lparr>threads := (threads s)(1 := (threads s 1)\<lparr>timeout := 1\<rparr>)\<rparr>"

definition mutex_status :: "mid option option \<Rightarrow> int" where
  "mutex_status mutex = (if mutex = Some None \<or> mutex = None then EINVAL else 0)"

definition demo_env :: env where
  "demo_env =
     \<lparr>malloc_result = Some empty_cond, mutex_cv_unlock = mutex_status,
      mutex_cv_lock = mutex_status, sched = timeout_sched\<rparr>"

text \<open>Collaborators whose mutex layer unlocks every mutex with success, also a null one,
  and the state in which thread 1 has then blocked in a wait on a null mutex.\<close>

definition unlock_succeeds :: "mid option option \<Rightarrow> int" where
  "unlock_succeeds mutex = 0"

definition lenient_env :: env where
  "lenient_env =
     \<lparr>malloc_result = Some empty_cond, mutex_cv_unlock = unlock_succeeds,
      mutex_cv_lock = mutex_status, sched = timeout_sched\<rparr>"

definition null_mutex_kse :: kse where
  "null_mutex_kse =
     \<lparr>handles = demo_handles(0 := Some (empty_cond\<lparr>c_queue := [1]\<rparr>)),
      threads = demo_threads(1 := (demo_threads 1)
                  \<lparr>flags := PTHREAD_FLAGS_IN_CONDQ,
                   wakeup_time := \<lparr>tv_sec = - 1, tv_nsec = 0\<rparr>,
                   state := PS_COND_WAIT\<rparr>),
      errno = 0,
      trace = [MutexCvUnlock (Some None), SchedStateUnlock 1]\<rparr>"





subsection \<open>Facts about the flag bits\<close>

lemma in_condq_clear [simp]: "in_condq (clear_condq ts p) p = False"
  by (simp add: in_condq_def clear_condq_def PTHREAD_FLAGS_IN_CONDQ_def word_bw_assocs)

lemma in_condq_set [simp]: "in_condq (set_condq ts p) p = True"
  by (simp add: in_condq_def set_condq_def PTHREAD_FLAGS_IN_CONDQ_def word_ao_absorbs)

lemma in_condq_clear_other [simp]: "t \<noteq> p \<Longrightarrow> in_condq (clear_condq ts p) t = in_condq ts t"
  by (simp add: in_condq_def clear_condq_def)

lemma in_condq_set_other [simp]: "t \<noteq> p \<Longrightarrow> in_condq (set_condq ts p) t = in_condq ts t"
  by (simp add: in_condq_def set_condq_def)

lemma timeout_clear [simp]: "timeout (clear_condq ts p t) = timeout (ts t)"
  by (simp add: clear_condq_def)
lemma interrupted_clear [simp]: "interrupted (clear_condq ts p t) = interrupted (ts t)"
  by (simp add: clear_condq_def)
lemma timeout_set [simp]: "timeout (set_condq ts p t) = timeout (ts t)"
  by (simp add: set_condq_def)
lemma interrupted_set [simp]: "interrupted (set_condq ts p t) = interrupted (ts t)"
  by (simp add: set_condq_def)

subsection \<open>Dequeue of the first eligible thread\<close>

lemma eligible_clear [simp]: "eligible (clear_condq ts p) t = eligible ts t"
  by (simp add: eligible_def clear_condq_def)

lemma deq_loop_spec:
  "deq_loop q ts =
     (let rest = dropWhile (\<lambda>t. \<not> eligible ts t) q;
          popped = takeWhile (\<lambda>t. \<not> eligible ts t) q @ take 1 rest
      in (case rest of [] \<Rightarrow> None | p # _ \<Rightarrow> Some p, tl rest,
          (\<lambda>t. if t \<in> set popped
               then (ts t)\<lparr>flags := flags (ts t) AND NOT PTHREAD_FLAGS_IN_CONDQ\<rparr>
               else ts t)))"
proof (induction q arbitrary: ts)
  case Nil
  show ?case by simp
next
  case (Cons p q)
  show ?case
  proof (cases "eligible ts p")
    case True
    then have "eligible (clear_condq ts p) p" by simp
    then have "deq_loop (p # q) ts = (Some p, q, clear_condq ts p)"
      by (simp add: eligible_def Let_def)
    with True show ?thesis
      by (auto simp: Let_def clear_condq_def fun_eq_iff)
  next
    case False
    then have "\<not> eligible (clear_condq ts p) p" by simp
    then have "deq_loop (p # q) ts = deq_loop q (clear_condq ts p)"
      by (auto simp: eligible_def Let_def)
    with False show ?thesis
      apply (simp add: Cons.IH Let_def)
      apply (auto simp: clear_condq_def fun_eq_iff word_bw_assocs)
      done
  qed
qed

text \<open>Claim C2. For every queue, \<open>cond_queue_deq\<close> pops the threads at the head that have
  timed out or been interrupted and the first thread that has done neither, clears the
  membership flag of each popped thread and changes nothing else of any thread, and
  returns that first eligible thread; when no thread is eligible it leaves the queue empty
  and returns none.\<close>

theorem cond_queue_deq_first_eligible:
  "cond_queue_deq c ts =
     (case dropWhile (\<lambda>t. \<not> eligible ts t) (c_queue c) of
        [] \<Rightarrow> (None, c\<lparr>c_queue := []\<rparr>, flag_cleared ts (c_queue c))
      | p # rest \<Rightarrow>
          (Some p, c\<lparr>c_queue := rest\<rparr>,
           flag_cleared ts (takeWhile (\<lambda>t. \<not> eligible ts t) (c_queue c) @ [p])))"
proof (cases "dropWhile (\<lambda>t. \<not> eligible ts t) (c_queue c)")
  case Nil
  then have "takeWhile (\<lambda>t. \<not> eligible ts t) (c_queue c) = c_queue c"
    by (simp add: takeWhile_eq_all_conv dropWhile_eq_Nil_conv)
  with Nil show ?thesis
    by (simp add: cond_queue_deq_def deq_loop_spec Let_def flag_cleared_def fun_eq_iff
        del: takeWhile_eq_all_conv dropWhile_eq_Nil_conv)
next
  case (Cons p rest)
  then show ?thesis
    by (simp add: cond_queue_deq_def deq_loop_spec Let_def flag_cleared_def fun_eq_iff)
qed

subsection \<open>Priority order of the wait queue\<close>

lemma prio_clear [simp]: "active_priority (clear_condq ts p t) = active_priority (ts t)"
  by (simp add: clear_condq_def)

lemma prio_set [simp]: "active_priority (set_condq ts p t) = active_priority (ts t)"
  by (simp add: set_condq_def)



lemma enq_scan_closed:
  "\<exists>t\<in>set q. active_priority (ts t) < active_priority (ts p) \<Longrightarrow>
   enq_scan ts p q =
     Some (takeWhile (\<lambda>t. active_priority (ts p) \<le> active_priority (ts t)) q @
           p # dropWhile (\<lambda>t. active_priority (ts p) \<le> active_priority (ts t)) q)"
  by (induction q) auto

lemma cond_queue_enq_closed:
  "cond_queue_enq c p ts =
     Some (c\<lparr>c_queue :=
               (if c_queue c = [] \<or> active_priority (ts p) \<le> active_priority (ts (last (c_queue c)))
                then c_queue c @ [p]
                else takeWhile (\<lambda>t. active_priority (ts p) \<le> active_priority (ts t)) (c_queue c) @
                     p # dropWhile (\<lambda>t. active_priority (ts p) \<le> active_priority (ts t)) (c_queue c))\<rparr>,
           set_condq ts p)"
proof (cases "c_queue c = [] \<or> active_priority (ts p) \<le> active_priority (ts (last (c_queue c)))")
  case True
  then show ?thesis
    by (auto simp: cond_queue_enq_def TAILQ_LAST_def TAILQ_INSERT_TAIL_def)
next
  case False
  then have "\<exists>t\<in>set (c_queue c). active_priority (ts t) < active_priority (ts p)"
    by (intro bexI [of _ "last (c_queue c)"]) auto
  from enq_scan_closed [OF this] False show ?thesis
    by (simp add: cond_queue_enq_def TAILQ_LAST_def)
qed










subsection \<open>Removal from the wait queue\<close>

text \<open>Claim C10. Removing a thread whose membership flag is unset changes neither the
  queue nor any thread. Hence removal is idempotent: removing a thread a second time
  gives what the first removal gave, and so does the whole fragment "remove the thread,
  then clear the mutex if the queue is empty", so the transition to an empty queue is not
  taken twice.\<close>

theorem cond_queue_remove_idempotent:
  "(\<not> in_condq ts p \<longrightarrow> cond_queue_remove c p ts = (c, ts)) \<and>
   (case cond_queue_remove c p ts of (c', ts') \<Rightarrow> cond_queue_remove c' p ts' = (c', ts')) \<and>
   (case remove_and_check c p ts of (c', ts') \<Rightarrow> remove_and_check c' p ts' = (c', ts'))"
  by (auto simp: cond_queue_remove_def remove_and_check_def split: prod.splits if_splits)

text \<open>The theorem at the queue 1, 2 and thread 3, which is not queued.\<close>

theorem cond_queue_remove_idempotent_witness:
  "\<not> in_condq demo_threads 3 \<and>
   cond_queue_remove (empty_cond\<lparr>c_queue := [1, 2]\<rparr>) 3 demo_threads =
     (empty_cond\<lparr>c_queue := [1, 2]\<rparr>, demo_threads)"
  using cond_queue_remove_idempotent [of demo_threads 3 "empty_cond\<lparr>c_queue := [1, 2]\<rparr>"]
  by (simp add: in_condq_def demo_threads_def idle_thread_def)

subsection \<open>The mutex and the emptiness of the queue\<close>

lemma static_queue_init_inited [simp]:
  "c_flags c AND COND_FLAGS_INITED \<noteq> 0 \<Longrightarrow> static_queue_init c = c"
  by (simp add: static_queue_init_def)

lemma remove_and_check_ok:
  "cond_ok c \<Longrightarrow> remove_and_check c p ts = (c', ts') \<Longrightarrow> cond_ok c'"
  by (auto simp: remove_and_check_def cond_queue_remove_def TAILQ_FIRST_def TAILQ_REMOVE_def
      cond_ok_def split: if_splits list.splits)

lemma remove_and_check_single:
  "c_queue c = [p] \<Longrightarrow> in_condq ts p \<Longrightarrow> c_flags c AND COND_FLAGS_INITED \<noteq> 0 \<Longrightarrow>
   remove_and_check c p ts = (c', ts') \<Longrightarrow> cond_ok c'"
  by (auto simp: remove_and_check_def cond_queue_remove_def TAILQ_FIRST_def TAILQ_REMOVE_def
      cond_ok_def split: if_splits list.splits)

lemma cond_ok_lock [simp]:
  "cond_ok (SPINLOCK c) = cond_ok c" "cond_ok (SPINUNLOCK c) = cond_ok c"
  "cond_ok (c\<lparr>lock := b\<rparr>) = cond_ok c"
  by (simp_all add: cond_ok_def SPINLOCK_def SPINUNLOCK_def)

lemma enq_queue_nonempty:
  "cond_queue_enq c p ts = Some (c', ts') \<Longrightarrow>
     c_queue c' \<noteq> [] \<and> (c_queue c = [] \<longrightarrow> c_queue c' = [p]) \<and> in_condq ts' p \<and>
     c_flags c' = c_flags c \<and> c_mutex c' = c_mutex c"
  by (auto simp: cond_queue_enq_closed split: if_splits)


lemma cv_ok_put [simp]: "cv_ok a (put_cond a c s) = cond_ok c"
  by (simp add: cv_ok_def put_cond_def)

lemma handles_log [simp]: "handles (log_event ev s) = handles s"
  by (simp add: log_event_def)

lemma cv_ok_log [simp]: "cv_ok a (log_event ev s) = cv_ok a s"
  by (simp add: cv_ok_def)

lemma threads_log [simp]: "threads (log_event ev s) = threads s"
  by (simp add: log_event_def)

lemma cond_cleanup_section_ok:
  assumes "cv_ok a s" "cond_cleanup_section self a s = Some s'"
  shows "cv_ok a s'"
proof -
  from assms(1) obtain c where c: "handles s a = Some c" "cond_ok c"
    by (auto simp: cv_ok_def split: option.splits)
  obtain c' ts' where r: "remove_and_check (SPINLOCK c) self (threads s) = (c', ts')"
    by (cases "remove_and_check (SPINLOCK c) self (threads s)")
  from c(2) have "cond_ok (SPINLOCK c)" by simp
  from remove_and_check_ok [OF this r] have "cond_ok c'" .
  with assms(2) c r show ?thesis
    by (auto simp: cond_cleanup_section_def)
qed

lemma enqueued_section_ok:
  assumes ok: "cond_ok c" and chk: "\<not> (c_mutex c \<noteq> None \<and> c_mutex c \<noteq> m)"
    and enq: "cond_queue_enq c self ts1 = Some (c3, ts2)"
    and flag: "in_condq ts3 self"
  shows "m \<noteq> None \<Longrightarrow> cond_ok (c3\<lparr>c_mutex := m\<rparr>)"
    and "remove_and_check (c3\<lparr>c_mutex := m\<rparr>) self ts3 = (c5, ts4) \<Longrightarrow> cond_ok c5"
proof -
  from enq_queue_nonempty [OF enq]
  have e: "c_queue c3 \<noteq> []" "c_queue c = [] \<longrightarrow> c_queue c3 = [self]" "c_flags c3 = c_flags c"
    by simp_all
  with ok show g1: "cond_ok (c3\<lparr>c_mutex := m\<rparr>)" if "m \<noteq> None"
    using that by (simp add: cond_ok_def)
  assume r: "remove_and_check (c3\<lparr>c_mutex := m\<rparr>) self ts3 = (c5, ts4)"
  show "cond_ok c5"
  proof (cases "m = None")
    case False
    from remove_and_check_ok [OF g1 [OF False] r] show ?thesis .
  next
    case True
    with chk ok have "c_queue c = []" by (auto simp: cond_ok_def)
    with e have "c_queue (c3\<lparr>c_mutex := m\<rparr>) = [self]" by simp
    from remove_and_check_single [OF this flag _ r] e ok show ?thesis
      by (simp add: cond_ok_def)
  qed
qed

lemma in_condq_wakeup [simp]:
  "in_condq (ts(p := (ts p)\<lparr>wakeup_time := w\<rparr>)) t = in_condq ts t"
  by (simp add: in_condq_def)

lemma cond_wait_section_ok:
  assumes "cv_ok a s" "\<not> (blocked \<and> mutex = Some None)"
    "cond_wait_section e self a mutex s = Some (rv, blocked, s')"
  shows "cv_ok a s'"
proof -
  from assms(1) obtain c where c: "handles s a = Some c" "cond_ok c"
    by (auto simp: cv_ok_def split: option.splits)
  then have i: "static_queue_init (SPINLOCK c) = SPINLOCK c" "cond_ok (SPINLOCK c)"
    by (simp_all add: cond_ok_def SPINLOCK_def)
  show ?thesis
  proof (cases "c_type c = COND_TYPE_FAST \<and> (\<exists>m. mutex = Some m \<and> \<not> (c_mutex c \<noteq> None \<and> c_mutex c \<noteq> m))")
    case False
    with assms(3) c i show ?thesis
      by (auto simp: cond_wait_section_def SPINLOCK_def Let_def
          split: pthread_cond_type.splits option.splits if_splits)
  next
    case True
    then obtain m where m: "mutex = Some m" "\<not> (c_mutex (SPINLOCK c) \<noteq> None \<and> c_mutex (SPINLOCK c) \<noteq> m)"
      "c_type (SPINLOCK c) = COND_TYPE_FAST"
      by (auto simp: SPINLOCK_def)
    let ?ts1 = "(threads s)(self := (threads s self)\<lparr>timeout := 0, interrupted := 0\<rparr>)"
    obtain c3 ts2 where enq: "cond_queue_enq (SPINLOCK c) self ?ts1 = Some (c3, ts2)"
      by (simp add: cond_queue_enq_closed)
    let ?ts3 = "ts2(self := (ts2 self)\<lparr>wakeup_time := (wakeup_time (ts2 self))\<lparr>tv_sec := - 1\<rparr>\<rparr>)"
    from enq_queue_nonempty [OF enq] have flag: "in_condq ?ts3 self" by simp
    note sec = enqueued_section_ok [OF i(2) m(2) enq flag]
    show ?thesis
    proof (cases "mutex_cv_unlock e mutex = 0")
      case True
      from assms(3) c i m enq True have "blocked"
        by (auto simp: cond_wait_section_def Let_def)
      with assms(2) m(1) have "m \<noteq> None" by auto
      from sec(1) [OF this] assms(3) c i m enq True show ?thesis
        by (auto simp: cond_wait_section_def Let_def thread_kern_sched_state_unlock_def)
    next
      case False
      obtain c5 ts4 where r: "remove_and_check (c3\<lparr>c_mutex := m\<rparr>) self ?ts3 = (c5, ts4)"
        by (cases "remove_and_check (c3\<lparr>c_mutex := m\<rparr>) self ?ts3")
      from sec(2) [OF r] assms(3) c i m enq False r show ?thesis
        by (auto simp: cond_wait_section_def Let_def)
    qed
  qed
qed

lemma cond_timedwait_section_ok:
  assumes "cv_ok a s" "\<not> (blocked \<and> mutex = Some None)"
    "cond_timedwait_section e self a mutex abstime s = Some (rv, blocked, s')"
  shows "cv_ok a s'"
proof -
  from assms(1) obtain c where c: "handles s a = Some c" "cond_ok c"
    by (auto simp: cv_ok_def split: option.splits)
  then have i: "static_queue_init (SPINLOCK c) = SPINLOCK c" "cond_ok (SPINLOCK c)"
    by (simp_all add: cond_ok_def SPINLOCK_def)
  show ?thesis
  proof (cases "c_type c = COND_TYPE_FAST \<and> (\<exists>m. mutex = Some m \<and> \<not> (c_mutex c \<noteq> None \<and> c_mutex c \<noteq> m))")
    case False
    with assms(3) c i show ?thesis
      by (auto simp: cond_timedwait_section_def SPINLOCK_def Let_def
          split: pthread_cond_type.splits option.splits if_splits)
  next
    case True
    then obtain m where m: "mutex = Some m" "\<not> (c_mutex (SPINLOCK c) \<noteq> None \<and> c_mutex (SPINLOCK c) \<noteq> m)"
      "c_type (SPINLOCK c) = COND_TYPE_FAST"
      by (auto simp: SPINLOCK_def)
    let ?ts1 = "(threads s)(self := (threads s self)
                 \<lparr>timeout := 0, interrupted := 0,
                  wakeup_time := \<lparr>tv_sec = tv_sec abstime, tv_nsec = tv_nsec abstime\<rparr>\<rparr>)"
    obtain c3 ts2 where enq: "cond_queue_enq (SPINLOCK c) self ?ts1 = Some (c3, ts2)"
      by (simp add: cond_queue_enq_closed)
    from enq_queue_nonempty [OF enq] have flag: "in_condq ts2 self" by simp
    note sec = enqueued_section_ok [OF i(2) m(2) enq flag]
    show ?thesis
    proof (cases "mutex_cv_unlock e mutex = 0")
      case True
      from assms(3) c i m enq True have "blocked"
        by (auto simp: cond_timedwait_section_def Let_def)
      with assms(2) m(1) have "m \<noteq> None" by auto
      from sec(1) [OF this] assms(3) c i m enq True show ?thesis
        by (auto simp: cond_timedwait_section_def Let_def thread_kern_sched_state_unlock_def)
    next
      case False
      obtain c5 ts4 where r: "remove_and_check (c3\<lparr>c_mutex := m\<rparr>) self ts2 = (c5, ts4)"
        by (cases "remove_and_check (c3\<lparr>c_mutex := m\<rparr>) self ts2")
      from sec(2) [OF r] assms(3) c i m enq False r show ?thesis
        by (auto simp: cond_timedwait_section_def Let_def)
    qed
  qed
qed


lemma cond_queue_deq_fields:
  assumes "cond_queue_deq c ts = (r, c', ts')"
  shows "c_mutex c' = c_mutex c" "c_flags c' = c_flags c" "c_type c' = c_type c"
    "c_queue c' \<noteq> [] \<Longrightarrow> c_queue c \<noteq> []" "r = None \<Longrightarrow> c_queue c' = []"
proof -
  let ?rest = "dropWhile (\<lambda>t. \<not> eligible ts t) (c_queue c)"
  from assms have x: "r = (case ?rest of [] \<Rightarrow> None | p # _ \<Rightarrow> Some p)"
    "c' = c\<lparr>c_queue := tl ?rest\<rparr>"
    by (auto simp: cond_queue_deq_def deq_loop_spec Let_def)
  from x(2) show "c_mutex c' = c_mutex c" "c_flags c' = c_flags c" "c_type c' = c_type c"
    by simp_all
  from x(2) show "c_queue c \<noteq> []" if "c_queue c' \<noteq> []"
    using that by auto
  from x show "c_queue c' = []" if "r = None"
    using that by (cases ?rest) (simp_all del: dropWhile_eq_Nil_conv)
qed

lemma cond_signal_section_ok:
  assumes "cond_ok c0" "cond_signal_section c0 ts = (rv, c, ts')"
  shows "cond_ok c"
proof (cases "c_type c0")
  case COND_TYPE_FAST
  obtain r c1 ts1 where d: "cond_queue_deq (SPINLOCK c0) ts = (r, c1, ts1)"
    by (cases "cond_queue_deq (SPINLOCK c0) ts") auto
  from cond_queue_deq_fields(1,2,4) [OF d] assms(1)
  have "cond_ok (if TAILQ_FIRST (c_queue c1) = None then c1\<lparr>c_mutex := None\<rparr> else c1)"
    by (auto simp: cond_ok_def SPINLOCK_def TAILQ_FIRST_def split: list.splits)
  with assms(2) COND_TYPE_FAST d show ?thesis
    by (auto simp: cond_signal_section_def SPINLOCK_def Let_def)
next
  case COND_TYPE_MAX
  with assms show ?thesis
    by (auto simp: cond_signal_section_def SPINLOCK_def Let_def)
qed

lemma broadcast_loop_empty:
  "broadcast_loop c ts = (c1, ts1) \<Longrightarrow>
     c_queue c1 = [] \<and> c_flags c1 = c_flags c \<and> c_type c1 = c_type c"
proof (induction c ts rule: broadcast_loop.induct)
  case (1 c ts)
  obtain r c' ts' where d: "cond_queue_deq c ts = (r, c', ts')"
    by (cases "cond_queue_deq c ts") auto
  show ?case
  proof (cases r)
    case None
    with d "1.prems" have "c1 = c'" by (subst (asm) broadcast_loop.simps) simp
    with cond_queue_deq_fields [OF d] None show ?thesis by simp
  next
    case (Some p)
    with d "1.prems" have "broadcast_loop c' (PTHREAD_NEW_STATE ts' p PS_RUNNING) = (c1, ts1)"
      by (subst (asm) broadcast_loop.simps) simp
    from "1.IH" [OF d [symmetric] _ _ this] Some cond_queue_deq_fields(2,3) [OF d]
    show ?thesis by simp
  qed
qed

lemma cond_broadcast_section_ok:
  assumes "cond_ok c0" "cond_broadcast_section c0 ts = (rv, c, ts')"
  shows "cond_ok c"
proof (cases "c_type c0")
  case COND_TYPE_FAST
  obtain c1 ts1 where b: "broadcast_loop (SPINLOCK c0) ts = (c1, ts1)"
    by (cases "broadcast_loop (SPINLOCK c0) ts") auto
  from broadcast_loop_empty [OF b] assms(1) have "cond_ok (c1\<lparr>c_mutex := None\<rparr>)"
    by (simp add: cond_ok_def SPINLOCK_def)
  with assms(2) COND_TYPE_FAST b show ?thesis
    by (auto simp: cond_broadcast_section_def SPINLOCK_def Let_def)
next
  case COND_TYPE_MAX
  with assms show ?thesis
    by (auto simp: cond_broadcast_section_def SPINLOCK_def Let_def)
qed

lemma cond_half_lock [simp]:
  "cond_half (SPINLOCK c) = cond_half c" "cond_half (SPINUNLOCK c) = cond_half c"
  "cond_half (c\<lparr>lock := b\<rparr>) = cond_half c"
  by (simp_all add: cond_half_def SPINLOCK_def SPINUNLOCK_def)

lemma cv_half_put [simp]: "cv_half a (put_cond a c s) = cond_half c"
  by (simp add: cv_half_def put_cond_def)

lemma cv_half_log [simp]: "cv_half a (log_event ev s) = cv_half a s"
  by (simp add: cv_half_def)

lemma remove_and_check_half:
  "c_flags c AND COND_FLAGS_INITED \<noteq> 0 \<Longrightarrow> remove_and_check c p ts = (c', ts') \<Longrightarrow> cond_half c'"
  by (auto simp: remove_and_check_def cond_queue_remove_def TAILQ_FIRST_def cond_half_def
      split: if_splits list.splits)

lemma cond_cleanup_section_half:
  assumes "cv_half a s" "cond_cleanup_section self a s = Some s'"
  shows "cv_half a s'"
proof -
  from assms(1) obtain c where c: "handles s a = Some c" "cond_half c"
    by (auto simp: cv_half_def split: option.splits)
  obtain c' ts' where r: "remove_and_check (SPINLOCK c) self (threads s) = (c', ts')"
    by (cases "remove_and_check (SPINLOCK c) self (threads s)")
  from c(2) have "c_flags (SPINLOCK c) AND COND_FLAGS_INITED \<noteq> 0"
    by (simp add: cond_half_def SPINLOCK_def)
  from remove_and_check_half [OF this r] have "cond_half c'" .
  with assms(2) c r show ?thesis
    by (auto simp: cond_cleanup_section_def)
qed

lemma enqueued_section_half:
  assumes "c_flags c AND COND_FLAGS_INITED \<noteq> 0" and "cond_queue_enq c self ts1 = Some (c3, ts2)"
  shows "cond_half (c3\<lparr>c_mutex := m\<rparr>)"
    and "remove_and_check (c3\<lparr>c_mutex := m\<rparr>) self ts3 = (c5, ts4) \<Longrightarrow> cond_half c5"
proof -
  from enq_queue_nonempty [OF assms(2)] assms(1)
  have e: "c_queue c3 \<noteq> []" "c_flags c3 AND COND_FLAGS_INITED \<noteq> 0" by simp_all
  then show "cond_half (c3\<lparr>c_mutex := m\<rparr>)" by (simp add: cond_half_def)
  assume r: "remove_and_check (c3\<lparr>c_mutex := m\<rparr>) self ts3 = (c5, ts4)"
  from e(2) have "c_flags (c3\<lparr>c_mutex := m\<rparr>) AND COND_FLAGS_INITED \<noteq> 0" by simp
  from remove_and_check_half [OF this r] show "cond_half c5" .
qed

lemma cond_wait_section_half:
  assumes "cv_half a s" "cond_wait_section e self a mutex s = Some (rv, blocked, s')"
  shows "cv_half a s'"
proof -
  from assms(1) obtain c where c: "handles s a = Some c" "cond_half c"
    by (auto simp: cv_half_def split: option.splits)
  then have i: "static_queue_init (SPINLOCK c) = SPINLOCK c" "cond_half (SPINLOCK c)"
    "c_flags (SPINLOCK c) AND COND_FLAGS_INITED \<noteq> 0"
    by (simp_all add: cond_half_def SPINLOCK_def)
  let ?ts1 = "(threads s)(self := (threads s self)\<lparr>timeout := 0, interrupted := 0\<rparr>)"
  obtain c3 ts2 where enq: "cond_queue_enq (SPINLOCK c) self ?ts1 = Some (c3, ts2)"
    by (simp add: cond_queue_enq_closed)
  let ?ts3 = "ts2(self := (ts2 self)\<lparr>wakeup_time := (wakeup_time (ts2 self))\<lparr>tv_sec := - 1\<rparr>\<rparr>)"
  have h: "cond_half c5" if "remove_and_check (c3\<lparr>c_mutex := m\<rparr>) self ?ts3 = (c5, ts4)"
    for m c5 ts4
    using enqueued_section_half(2) [OF i(3) enq that] .
  from assms(2) c i(1,2) enq enqueued_section_half(1) [OF i(3) enq] h show ?thesis
    by (auto simp: cond_wait_section_def Let_def thread_kern_sched_state_unlock_def
        split: pthread_cond_type.splits option.splits if_splits prod.splits)
qed

lemma cond_timedwait_section_half:
  assumes "cv_half a s" "cond_timedwait_section e self a mutex abstime s = Some (rv, blocked, s')"
  shows "cv_half a s'"
proof -
  from assms(1) obtain c where c: "handles s a = Some c" "cond_half c"
    by (auto simp: cv_half_def split: option.splits)
  then have i: "static_queue_init (SPINLOCK c) = SPINLOCK c" "cond_half (SPINLOCK c)"
    "c_flags (SPINLOCK c) AND COND_FLAGS_INITED \<noteq> 0"
    by (simp_all add: cond_half_def SPINLOCK_def)
  let ?ts1 = "(threads s)(self := (threads s self)
                 \<lparr>timeout := 0, interrupted := 0,
                  wakeup_time := \<lparr>tv_sec = tv_sec abstime, tv_nsec = tv_nsec abstime\<rparr>\<rparr>)"
  obtain c3 ts2 where enq: "cond_queue_enq (SPINLOCK c) self ?ts1 = Some (c3, ts2)"
    by (simp add: cond_queue_enq_closed)
  have h: "cond_half c5" if "remove_and_check (c3\<lparr>c_mutex := m\<rparr>) self ts2 = (c5, ts4)"
    for m c5 ts4
    using enqueued_section_half(2) [OF i(3) enq that] .
  from assms(2) c i(1,2) enq enqueued_section_half(1) [OF i(3) enq] h show ?thesis
    by (auto simp: cond_timedwait_section_def Let_def thread_kern_sched_state_unlock_def
        split: pthread_cond_type.splits option.splits if_splits prod.splits)
qed

lemma cond_signal_section_half:
  assumes "cond_half c0" "cond_signal_section c0 ts = (rv, c, ts')"
  shows "cond_half c"
proof (cases "c_type c0")
  case COND_TYPE_FAST
  obtain r c1 ts1 where d: "cond_queue_deq (SPINLOCK c0) ts = (r, c1, ts1)"
    by (cases "cond_queue_deq (SPINLOCK c0) ts") auto
  from cond_queue_deq_fields(1,2) [OF d] assms(1)
  have "cond_half (if TAILQ_FIRST (c_queue c1) = None then c1\<lparr>c_mutex := None\<rparr> else c1)"
    by (auto simp: cond_half_def SPINLOCK_def TAILQ_FIRST_def split: list.splits)
  with assms(2) COND_TYPE_FAST d show ?thesis
    by (auto simp: cond_signal_section_def SPINLOCK_def Let_def)
next
  case COND_TYPE_MAX
  with assms show ?thesis
    by (auto simp: cond_signal_section_def SPINLOCK_def Let_def)
qed

lemma cond_broadcast_section_half:
  assumes "cond_half c0" "cond_broadcast_section c0 ts = (rv, c, ts')"
  shows "cond_half c"
proof (cases "c_type c0")
  case COND_TYPE_FAST
  obtain c1 ts1 where b: "broadcast_loop (SPINLOCK c0) ts = (c1, ts1)"
    by (cases "broadcast_loop (SPINLOCK c0) ts") auto
  from broadcast_loop_empty [OF b] assms(1) have "cond_half (c1\<lparr>c_mutex := None\<rparr>)"
    by (simp add: cond_half_def SPINLOCK_def)
  with assms(2) COND_TYPE_FAST b show ?thesis
    by (auto simp: cond_broadcast_section_def SPINLOCK_def Let_def)
next
  case COND_TYPE_MAX
  with assms show ?thesis
    by (auto simp: cond_broadcast_section_def SPINLOCK_def Let_def)
qed

lemma cv_reach_half: "cv_reach a b s \<Longrightarrow> cv_half a s"
proof (induction rule: cv_reach.induct)
  case (initialized s c)
  then show ?case by (simp add: cv_half_def cond_half_def)
next
  case (wait b s e self mutex rv blocked s')
  then show ?case by (blast intro: cond_wait_section_half)
next
  case (timedwait b s e self mutex abstime rv blocked s')
  then show ?case by (blast intro: cond_timedwait_section_half)
next
  case (cleanup b s self s')
  then show ?case by (blast intro: cond_cleanup_section_half)
next
  case (signal b s rv s')
  from signal.IH obtain c0 where c: "handles s a = Some c0" "cond_half c0"
    by (auto simp: cv_half_def split: option.splits)
  obtain r c ts where x: "cond_signal_section c0 (threads s) = (r, c, ts)"
    by (cases "cond_signal_section c0 (threads s)") auto
  from cond_signal_section_half [OF c(2) x] signal.hyps(2) c x show ?case
    by (auto simp: pthread_cond_signal_def Let_def)
next
  case (broadcast b s rv s')
  from broadcast.IH obtain c0 where c: "handles s a = Some c0" "cond_half c0"
    by (auto simp: cv_half_def split: option.splits)
  obtain r c ts where x: "cond_broadcast_section c0 (threads s) = (r, c, ts)"
    by (cases "cond_broadcast_section c0 (threads s)") auto
  from cond_broadcast_section_half [OF c(2) x] broadcast.hyps(2) c x show ?case
    by (auto simp: pthread_cond_broadcast_def Let_def)
next
  case (other b s s')
  then show ?case by (simp add: cv_half_def)
qed

lemma cv_reach_ok: "cv_reach a b s \<Longrightarrow> \<not> b \<Longrightarrow> cv_ok a s"
proof (induction rule: cv_reach.induct)
  case (initialized s c)
  then show ?case by (simp add: cv_ok_def cond_ok_def)
next
  case (wait b s e self mutex rv blocked s')
  from wait.prems have "\<not> b" "\<not> (blocked \<and> mutex = Some None)" by simp_all
  with wait.IH wait.hyps(2) show ?case by (blast intro: cond_wait_section_ok)
next
  case (timedwait b s e self mutex abstime rv blocked s')
  from timedwait.prems have "\<not> b" "\<not> (blocked \<and> mutex = Some None)" by simp_all
  with timedwait.IH timedwait.hyps(2) show ?case by (blast intro: cond_timedwait_section_ok)
next
  case (cleanup b s self s')
  then show ?case by (blast intro: cond_cleanup_section_ok)
next
  case (signal b s rv s')
  from signal.IH signal.prems obtain c0 where c: "handles s a = Some c0" "cond_ok c0"
    by (auto simp: cv_ok_def split: option.splits)
  obtain r c ts where x: "cond_signal_section c0 (threads s) = (r, c, ts)"
    by (cases "cond_signal_section c0 (threads s)") auto
  from cond_signal_section_ok [OF c(2) x] signal.hyps(2) c x show ?case
    by (auto simp: pthread_cond_signal_def Let_def)
next
  case (broadcast b s rv s')
  from broadcast.IH broadcast.prems obtain c0 where c: "handles s a = Some c0" "cond_ok c0"
    by (auto simp: cv_ok_def split: option.splits)
  obtain r c ts where x: "cond_broadcast_section c0 (threads s) = (r, c, ts)"
    by (cases "cond_broadcast_section c0 (threads s)") auto
  from cond_broadcast_section_ok [OF c(2) x] broadcast.hyps(2) c x show ?case
    by (auto simp: pthread_cond_broadcast_def Let_def)
next
  case (other b s s')
  then show ?case by (simp add: cv_ok_def)
qed

text \<open>Claim C3, as amended. Starting from an initialized condition variable with an
  empty queue and a null mutex, after every complete guarded section of every operation
  (the first section of wait and of timed wait with its invalid-argument, rollback and
  blocking exits, the cleanup section after a timeout or an interruption, signal,
  broadcast), whatever the collaborators do: an empty queue has a null mutex; and as long
  as no wait or timed wait has blocked on a mutex pointer whose mutex is null, the mutex
  of the condition variable is null if and only if its wait queue is empty.\<close>

theorem bound_mutex_null_iff_queue_empty:
  "cv_reach a b s \<Longrightarrow>
     \<exists>c. handles s a = Some c \<and> (c_queue c = [] \<longrightarrow> c_mutex c = None) \<and>
         (\<not> b \<longrightarrow> (c_mutex c = None) = (c_queue c = []))"
proof -
  assume r: "cv_reach a b s"
  from cv_reach_half [OF r] obtain c where c: "handles s a = Some c" "cond_half c"
    by (auto simp: cv_half_def split: option.splits)
  from cv_reach_ok [OF r] c(1) have "\<not> b \<longrightarrow> cond_ok c"
    by (auto simp: cv_ok_def)
  with c show ?thesis by (auto simp: cond_half_def cond_ok_def)
qed

text \<open>Claim C3 as stated fails: on the initialized condition variable at address 0,
  with an empty queue and a null mutex, thread 1 waits with a mutex pointer whose mutex is
  null; when the mutex layer unlocks it with success, the section ends by blocking with
  thread 1 queued and the mutex of the condition variable null.\<close>

theorem wait_null_mutex_counterexample:
  "handles demo_kse 0 = Some empty_cond \<and> c_queue empty_cond = [] \<and> c_mutex empty_cond = None \<and>
   cond_wait_section lenient_env 1 0 (Some None) demo_kse = Some (0, True, null_mutex_kse) \<and>
   handles null_mutex_kse 0 = Some (empty_cond\<lparr>c_queue := [1]\<rparr>) \<and>
   c_queue (empty_cond\<lparr>c_queue := [1]\<rparr>) = [1] \<and>
   c_mutex (empty_cond\<lparr>c_queue := [1]\<rparr>) = None"
  by (simp add: cond_wait_section_def demo_kse_def demo_handles_def static_queue_init_def
      SPINLOCK_def SPINUNLOCK_def empty_cond_def COND_FLAGS_INITED_def cond_queue_enq_def
      TAILQ_LAST_def TAILQ_INSERT_TAIL_def lenient_env_def unlock_succeeds_def Let_def
      log_event_def thread_kern_sched_state_unlock_def put_cond_def PTHREAD_NEW_STATE_def
      set_condq_def null_mutex_kse_def demo_threads_def idle_thread_def fun_eq_iff)

lemma demo_wait_blocks:
  "\<exists>s'. cond_wait_section demo_env 1 0 (Some (Some 7)) demo_kse = Some (0, True, s')"
  by (simp add: cond_wait_section_def demo_kse_def demo_handles_def static_queue_init_def
      SPINLOCK_def empty_cond_def COND_FLAGS_INITED_def cond_queue_enq_def TAILQ_LAST_def
      TAILQ_INSERT_TAIL_def demo_env_def mutex_status_def Let_def)

text \<open>The theorem at the state in which thread 1 has blocked in a wait with mutex 7 on
  the live condition variable at address 0.\<close>

theorem bound_mutex_null_iff_queue_empty_witness:
  "\<exists>s'. cond_wait_section demo_env 1 0 (Some (Some 7)) demo_kse = Some (0, True, s') \<and>
        cv_reach 0 False s' \<and>
        (\<exists>c. handles s' 0 = Some c \<and> ((c_mutex c = None) = (c_queue c = [])))"
proof -
  from demo_wait_blocks obtain s' where
    sec: "cond_wait_section demo_env 1 0 (Some (Some 7)) demo_kse = Some (0, True, s')" ..
  have r0: "cv_reach 0 False demo_kse"
    by (rule cv_reach.initialized [where c = empty_cond])
       (simp_all add: demo_kse_def demo_handles_def empty_cond_def COND_FLAGS_INITED_def)
  from cv_reach.wait [OF r0 sec] have r1: "cv_reach 0 False s'" by simp
  from bound_mutex_null_iff_queue_empty [OF r1] sec r1 show ?thesis
    by (intro exI [of _ s']) auto
qed

subsection \<open>Broadcast\<close>

lemma eligible_new_state [simp]: "eligible (PTHREAD_NEW_STATE ts p st) t = eligible ts t"
  by (simp add: eligible_def PTHREAD_NEW_STATE_def)

lemma in_condq_new_state [simp]: "in_condq (PTHREAD_NEW_STATE ts p st) t = in_condq ts t"
  by (simp add: in_condq_def PTHREAD_NEW_STATE_def)

lemma state_new_state [simp]: "state (PTHREAD_NEW_STATE ts p st p) = st"
  by (simp add: PTHREAD_NEW_STATE_def)

lemma cond_queue_deq_eligible_head:
  "c_queue c = p # q \<Longrightarrow> eligible ts p \<Longrightarrow>
   cond_queue_deq c ts = (Some p, c\<lparr>c_queue := q\<rparr>, clear_condq ts p)"
  by (simp add: cond_queue_deq_def Let_def eligible_def)

lemma broadcast_loop_all_eligible:
  "c_queue c = q \<Longrightarrow> \<forall>t\<in>set q. eligible ts t \<Longrightarrow> broadcast_loop c ts = (c1, ts1) \<Longrightarrow>
   c1 = c\<lparr>c_queue := []\<rparr> \<and>
   (\<forall>t\<in>set q. state (ts1 t) = PS_RUNNING \<and> \<not> in_condq ts1 t) \<and>
   (\<forall>t. t \<notin> set q \<longrightarrow> ts1 t = ts t)"
proof (induction q arbitrary: c ts)
  case Nil
  then have "cond_queue_deq c ts = (None, c\<lparr>c_queue := []\<rparr>, ts)"
    by (simp add: cond_queue_deq_def)
  with Nil.prems(3) have "c1 = c\<lparr>c_queue := []\<rparr>" "ts1 = ts"
    by (subst (asm) broadcast_loop.simps, simp)+
  then show ?case by simp
next
  case (Cons p q)
  let ?ts = "PTHREAD_NEW_STATE (clear_condq ts p) p PS_RUNNING"
  from Cons.prems(1,2) have d: "cond_queue_deq c ts = (Some p, c\<lparr>c_queue := q\<rparr>, clear_condq ts p)"
    by (simp add: cond_queue_deq_eligible_head)
  with Cons.prems(3) have b: "broadcast_loop (c\<lparr>c_queue := q\<rparr>) ?ts = (c1, ts1)"
    by (subst (asm) broadcast_loop.simps) simp
  from Cons.prems(2) have e: "\<forall>t\<in>set q. eligible ?ts t" by simp
  from Cons.IH [OF _ e b]
  have ih: "c1 = c\<lparr>c_queue := []\<rparr>" "\<forall>t\<in>set q. state (ts1 t) = PS_RUNNING \<and> \<not> in_condq ts1 t"
    "\<forall>t. t \<notin> set q \<longrightarrow> ts1 t = ?ts t"
    by simp_all
  have p: "state (ts1 p) = PS_RUNNING \<and> \<not> in_condq ts1 p"
  proof (cases "p \<in> set q")
    case True
    with ih(2) show ?thesis by blast
  next
    case False
    with ih(3) have "ts1 p = ?ts p" by blast
    then have "state (ts1 p) = state (?ts p)" "in_condq ts1 p = in_condq ?ts p"
      by (simp_all add: in_condq_def)
    then show ?thesis by simp
  qed
  have "ts1 t = ts t" if "t \<notin> set (p # q)" for t
  proof -
    from that ih(3) have "ts1 t = ?ts t" by simp
    with that show ?thesis by (simp add: PTHREAD_NEW_STATE_def clear_condq_def)
  qed
  with ih(1,2) p show ?case by simp
qed

text \<open>Claim C5. On a live condition variable of the fast kind whose queue holds threads
  none of which has the timeout or the interrupted flag set, broadcast returns 0, makes
  every queued thread runnable (and clears its membership flag), leaves the queue empty
  and the mutex null, and touches no other thread.\<close>

theorem broadcast_wakes_all_waiters:
  assumes "handles s a = Some c" and "c_type c = COND_TYPE_FAST"
    and "\<forall>t\<in>set (c_queue c). timeout (threads s t) = 0 \<and> interrupted (threads s t) = 0"
  shows "\<exists>s' c'. pthread_cond_broadcast (Some a) s = (0, s') \<and>
           handles s' a = Some c' \<and> c_queue c' = [] \<and> c_mutex c' = None \<and>
           (\<forall>t\<in>set (c_queue c). state (threads s' t) = PS_RUNNING \<and> \<not> in_condq (threads s') t) \<and>
           (\<forall>t. t \<notin> set (c_queue c) \<longrightarrow> threads s' t = threads s t)"
proof -
  obtain c1 ts1 where b: "broadcast_loop (SPINLOCK c) (threads s) = (c1, ts1)"
    by (cases "broadcast_loop (SPINLOCK c) (threads s)") auto
  from assms(3) have e: "\<forall>t\<in>set (c_queue c). eligible (threads s) t"
    by (simp add: eligible_def)
  have q: "c_queue (SPINLOCK c) = c_queue c" by (simp add: SPINLOCK_def)
  from broadcast_loop_all_eligible [OF q e b]
  have r: "c1 = (SPINLOCK c)\<lparr>c_queue := []\<rparr>"
    "\<forall>t\<in>set (c_queue c). state (ts1 t) = PS_RUNNING \<and> \<not> in_condq ts1 t"
    "\<forall>t. t \<notin> set (c_queue c) \<longrightarrow> ts1 t = threads s t"
    by simp_all
  from assms(1,2) b have
    "pthread_cond_broadcast (Some a) s =
       (0, log_event SigUndefer (put_cond a (SPINUNLOCK (c1\<lparr>c_mutex := None\<rparr>))
             ((log_event SigDefer s)\<lparr>threads := ts1\<rparr>)))"
    by (simp add: pthread_cond_broadcast_def cond_broadcast_section_def Let_def SPINLOCK_def
        log_event_def)
  with r show ?thesis
    by (simp add: log_event_def put_cond_def SPINUNLOCK_def SPINLOCK_def)
qed

text \<open>The theorem at the state where threads 1 and 3 wait: both become runnable, thread
  2 is left as it was.\<close>

theorem broadcast_wakes_all_waiters_witness:
  "\<exists>s' c'. pthread_cond_broadcast (Some 0) waiting_kse = (0, s') \<and>
           handles s' 0 = Some c' \<and> c_queue c' = [] \<and> c_mutex c' = None \<and>
           state (threads s' 1) = PS_RUNNING \<and> state (threads s' 3) = PS_RUNNING \<and>
           state (threads s' 2) = PS_COND_WAIT"
proof -
  have "handles waiting_kse 0 = Some (empty_cond\<lparr>c_queue := [1, 3], c_mutex := Some 7\<rparr>)"
    and "c_type (empty_cond\<lparr>c_queue := [1, 3], c_mutex := Some 7\<rparr>) = COND_TYPE_FAST"
    and "\<forall>t\<in>set (c_queue (empty_cond\<lparr>c_queue := [1, 3], c_mutex := Some 7\<rparr>)).
           timeout (threads waiting_kse t) = 0 \<and> interrupted (threads waiting_kse t) = 0"
    by (simp_all add: waiting_kse_def empty_cond_def waiting_threads_def demo_threads_def
        idle_thread_def)
  from broadcast_wakes_all_waiters [OF this]
  show ?thesis
    by (auto simp: waiting_kse_def waiting_threads_def)
qed

subsection \<open>Argument validation and lazy initialization\<close>

lemmas cancel_defs = thread_enter_cancellation_point_def thread_leave_cancellation_point_def

text \<open>Claim C7. A timed wait whose deadline has 1000000000 nanoseconds, or negative
  seconds, ends before any lazy initialization, enqueue or mutex operation: the handles
  and the threads are untouched and the trace holds only the entry to and the exit from
  the cancellation point. Its return value, however, is -1 with EINVAL stored in \<open>errno\<close>,
  and not EINVAL, which every other invalid-argument exit of these operations returns.\<close>

theorem timedwait_malformed_deadline_returns_minus_one:
  "pthread_cond_timedwait e self cond mutex (Some \<lparr>tv_sec = sec, tv_nsec = 1000000000\<rparr>) s =
     Some (- 1, s\<lparr>errno := EINVAL,
                  trace := trace s @ [EnterCancellationPoint, LeaveCancellationPoint]\<rparr>) \<and>
   pthread_cond_timedwait e self cond mutex (Some \<lparr>tv_sec = - 1, tv_nsec = nsec\<rparr>) s =
     Some (- 1, s\<lparr>errno := EINVAL,
                  trace := trace s @ [EnterCancellationPoint, LeaveCancellationPoint]\<rparr>) \<and>
   (- 1 :: int) \<noteq> EINVAL"
  by (simp add: pthread_cond_timedwait_def cancel_defs log_event_def EINVAL_def)

text \<open>The theorem at thread 1, the live condition variable at address 0 and mutex 7.\<close>

theorem timedwait_malformed_deadline_returns_minus_one_witness:
  "pthread_cond_timedwait demo_env 1 (Some 0) (Some (Some 7))
     (Some \<lparr>tv_sec = 0, tv_nsec = 1000000000\<rparr>) demo_kse =
     Some (- 1, demo_kse\<lparr>errno := EINVAL,
                  trace := [EnterCancellationPoint, LeaveCancellationPoint]\<rparr>)"
  using timedwait_malformed_deadline_returns_minus_one
          [of demo_env 1 "Some 0" "Some (Some 7)" 0 demo_kse 0]
  by (simp add: demo_kse_def)

text \<open>Claim C8. A wait with a null handle pointer returns EINVAL and touches nothing.
  A timed wait with a null handle pointer and a well-formed deadline sets its status to
  EINVAL and goes on to read through the null handle pointer; a timed wait with a null
  deadline pointer reads through the null deadline pointer. The result \<open>None\<close> is that
  read.\<close>

theorem timedwait_null_handle_dereferenced:
  "pthread_cond_timedwait e self None mutex (Some \<lparr>tv_sec = 0, tv_nsec = 0\<rparr>) s = None \<and>
   pthread_cond_timedwait e self cond mutex None s = None \<and>
   pthread_cond_wait e self None mutex s =
     Some (EINVAL, s\<lparr>trace := trace s @ [EnterCancellationPoint, LeaveCancellationPoint]\<rparr>)"
  by (simp add: pthread_cond_timedwait_def pthread_cond_wait_def cancel_defs log_event_def)

text \<open>The theorem at thread 1 and mutex 7, in the state with the live condition variable
  at address 0.\<close>

theorem timedwait_null_handle_dereferenced_witness:
  "pthread_cond_timedwait demo_env 1 None (Some (Some 7)) (Some \<lparr>tv_sec = 0, tv_nsec = 0\<rparr>)
     demo_kse = None \<and>
   pthread_cond_timedwait demo_env 1 (Some 0) (Some (Some 7)) None demo_kse = None \<and>
   pthread_cond_wait demo_env 1 None (Some (Some 7)) demo_kse =
     Some (EINVAL, demo_kse\<lparr>trace := [EnterCancellationPoint, LeaveCancellationPoint]\<rparr>)"
  using timedwait_null_handle_dereferenced [of demo_env 1 "Some (Some 7)" demo_kse "Some 0"]
  by (simp add: demo_kse_def)

text \<open>Claim C9 as stated fails: signal on the zero-valued handle at address 1 returns
  EINVAL and leaves the handle zero-valued.\<close>

theorem signal_placeholder_counterexample:
  "pthread_cond_signal (Some 1) demo_kse = (EINVAL, demo_kse) \<and> handles demo_kse 1 = None \<and>
   EINVAL \<noteq> 0"
  by (simp add: pthread_cond_signal_def demo_kse_def demo_handles_def EINVAL_def)

lemma put_cond_log: "put_cond a c (log_event ev s) = log_event ev (put_cond a c s)"
  by (simp add: put_cond_def log_event_def)

lemma handles_put [simp]: "handles (put_cond a c s) a = Some c"
  by (simp add: put_cond_def)

text \<open>Claim C9, as amended. A zero-valued handle is resolved into a live initialized
  condition variable on its first use by wait and by timed wait (with a well-formed
  deadline, and when the allocation succeeds): the call does what it does on the state
  in which \<open>pthread_cond_init\<close> has already replaced the placeholder by an initialized
  structure with an empty queue and no mutex. Signal and broadcast do not initialize: on
  a zero-valued handle they return EINVAL and leave the state as it is.\<close>

theorem placeholder_lazy_initialization:
  assumes "handles s a = None" and "malloc_result e = Some m" and "well_formed at"
  shows "pthread_cond_init e (Some a) None s = (0, put_cond a (initialized_cond m) s) \<and>
         c_flags (initialized_cond m) AND COND_FLAGS_INITED \<noteq> 0 \<and>
         pthread_cond_wait e self (Some a) mutex s =
           pthread_cond_wait e self (Some a) mutex (put_cond a (initialized_cond m) s) \<and>
         pthread_cond_timedwait e self (Some a) mutex (Some at) s =
           pthread_cond_timedwait e self (Some a) mutex (Some at)
             (put_cond a (initialized_cond m) s) \<and>
         pthread_cond_signal (Some a) s = (EINVAL, s) \<and>
         pthread_cond_broadcast (Some a) s = (EINVAL, s)"
proof -
  have i: "pthread_cond_init e (Some a) None s = (0, put_cond a (initialized_cond m) s)" for s
    using assms(2) by (simp add: pthread_cond_init_def initialized_cond_def Let_def)
  from assms(1) have w: "pthread_cond_wait e self (Some a) mutex s =
           pthread_cond_wait e self (Some a) mutex (put_cond a (initialized_cond m) s)"
    by (simp add: pthread_cond_wait_def lazy_init_def i cancel_defs put_cond_log Let_def)
  from assms(1,3) have t: "pthread_cond_timedwait e self (Some a) mutex (Some at) s =
           pthread_cond_timedwait e self (Some a) mutex (Some at) (put_cond a (initialized_cond m) s)"
    by (simp add: pthread_cond_timedwait_def lazy_init_def i cancel_defs put_cond_log Let_def
        well_formed_def)
  have f: "c_flags (initialized_cond m) AND COND_FLAGS_INITED \<noteq> 0"
    by (simp add: initialized_cond_def COND_FLAGS_INITED_def word_ao_absorbs)
  from assms(1) have b: "pthread_cond_signal (Some a) s = (EINVAL, s)"
    "pthread_cond_broadcast (Some a) s = (EINVAL, s)"
    by (simp_all add: pthread_cond_signal_def pthread_cond_broadcast_def)
  from i w t f b show ?thesis by simp
qed

text \<open>The theorem at the zero-valued handle at address 1.\<close>

theorem placeholder_lazy_initialization_witness:
  "handles demo_kse 1 = None \<and> malloc_result demo_env = Some empty_cond \<and>
   well_formed \<lparr>tv_sec = 1, tv_nsec = 0\<rparr> \<and>
   pthread_cond_init demo_env (Some 1) None demo_kse =
     (0, put_cond 1 (initialized_cond empty_cond) demo_kse) \<and>
   pthread_cond_wait demo_env 1 (Some 1) None demo_kse =
     pthread_cond_wait demo_env 1 (Some 1) None (put_cond 1 (initialized_cond empty_cond) demo_kse) \<and>
   pthread_cond_broadcast (Some 1) demo_kse = (EINVAL, demo_kse)"
proof -
  have h: "handles demo_kse 1 = None"
    by (simp add: demo_kse_def demo_handles_def)
  have m: "malloc_result demo_env = Some empty_cond"
    by (simp add: demo_env_def)
  have w: "well_formed \<lparr>tv_sec = 1, tv_nsec = 0\<rparr>"
    by (simp add: well_formed_def)
  from placeholder_lazy_initialization [OF h m w, of 1 None] h m w show ?thesis by simp
qed

subsection \<open>Rejection of a null or mismatched mutex\<close>




lemma initialized_cond_simps [simp]:
  "c_flags (initialized_cond m) AND COND_FLAGS_INITED \<noteq> 0"
  "c_mutex (initialized_cond m) = None" "c_queue (initialized_cond m) = []"
  "(initialized_cond m)\<lparr>lock := False\<rparr> = initialized_cond m"
  by (simp_all add: initialized_cond_def COND_FLAGS_INITED_def word_ao_absorbs)




subsection \<open>The timeout path of timed wait\<close>












end
